theory Spec2Isabelle
  imports Main "HOL-Library.Char_ord" "HOL-Library.List_Lexorder" "HOL-Library.Multiset"
begin

section \<open>Strings\<close>

text \<open>
  Cell values and column labels are Python \<open>str\<close> objects, modelled as \<^typ>\<open>string\<close>: the
  UTF-8 bytes of the text. Python compares strings by code point, which on UTF-8 is the
  lexicographic order of the bytes; that is the order \<open>Char_ord\<close> and \<open>List_Lexorder\<close> give,
  so \<^const>\<open>sort\<close> on strings is Python's \<open>sorted\<close>, and on lists of strings it is the
  order of Python tuples.

  \<open>str.strip()\<close> removes the leading and trailing white space characters, those
  \<open>str.isspace\<close> accepts: U+0009 to U+000D, U+001C to U+0020, U+0085, U+00A0, U+1680,
  U+2000 to U+200A, U+2028, U+2029, U+202F, U+205F and U+3000. A character is one code
  point, so the bytes are first cut into code points: a byte that is not a continuation
  byte (\<open>0x80\<close> to \<open>0xBF\<close>) starts one, and the continuation bytes after it belong to it.
\<close>

definition is_continuation :: "char \<Rightarrow> bool" where
  "is_continuation c = (CHR 0x80 \<le> c \<and> c < CHR 0xC0)"

function utf8_chars :: "string \<Rightarrow> string list" where
  "utf8_chars [] = []"
| "utf8_chars (c # cs) =
     (c # takeWhile is_continuation cs) # utf8_chars (dropWhile is_continuation cs)"
  by pat_completeness auto
termination
  by (relation "measure length") (auto simp: length_dropWhile_le less_Suc_eq_le)

definition py_whitespace :: "string list" where
  "py_whitespace =
     [[CHR 0x09], [CHR 0x0A], [CHR 0x0B], [CHR 0x0C], [CHR 0x0D],
      [CHR 0x1C], [CHR 0x1D], [CHR 0x1E], [CHR 0x1F], [CHR 0x20],
      [CHR 0xC2, CHR 0x85], [CHR 0xC2, CHR 0xA0], [CHR 0xE1, CHR 0x9A, CHR 0x80],
      [CHR 0xE2, CHR 0x80, CHR 0x80], [CHR 0xE2, CHR 0x80, CHR 0x81],
      [CHR 0xE2, CHR 0x80, CHR 0x82], [CHR 0xE2, CHR 0x80, CHR 0x83],
      [CHR 0xE2, CHR 0x80, CHR 0x84], [CHR 0xE2, CHR 0x80, CHR 0x85],
      [CHR 0xE2, CHR 0x80, CHR 0x86], [CHR 0xE2, CHR 0x80, CHR 0x87],
      [CHR 0xE2, CHR 0x80, CHR 0x88], [CHR 0xE2, CHR 0x80, CHR 0x89],
      [CHR 0xE2, CHR 0x80, CHR 0x8A], [CHR 0xE2, CHR 0x80, CHR 0xA8],
      [CHR 0xE2, CHR 0x80, CHR 0xA9], [CHR 0xE2, CHR 0x80, CHR 0xAF],
      [CHR 0xE2, CHR 0x81, CHR 0x9F], [CHR 0xE3, CHR 0x80, CHR 0x80]]"

definition is_space :: "string \<Rightarrow> bool" where
  "is_space ch = (ch \<in> set py_whitespace)"

definition strip :: "string \<Rightarrow> string" where
  "strip s = concat (rev (dropWhile is_space (rev (dropWhile is_space (utf8_chars s)))))"

text \<open>\<open>s.replace('~', 'NOT')\<close>, as \<open>Series.str.replace('~', 'NOT', regex=False)\<close> does
  on every cell.\<close>

definition replace_tilde :: "string \<Rightarrow> string" where
  "replace_tilde s = concat (map (\<lambda>c. if c = CHR ''~'' then ''NOT'' else [c]) s)"

text \<open>\<open>Series.unique()\<close>: the distinct values in order of first appearance.\<close>

fun py_unique :: "'a list \<Rightarrow> 'a list" where
  "py_unique [] = []"
| "py_unique (x # xs) = x # filter (\<lambda>y. y \<noteq> x) (py_unique xs)"


section \<open>Data frames\<close>

text \<open>
  A \<open>DataFrame\<close> is its column labels and its rows, each row holding one cell per label,
  in label order. \<open>read_csv(..., keep_default_na=False)\<close> yields cells that are strings
  or, in a column pandas could parse as numbers or booleans, values of another type;
  \<open>astype(str)\<close> turns those into strings with Python's \<open>str\<close>, which the model takes as
  the parameter \<open>py_str\<close>. With \<open>keep_default_na=False\<close> no cell is a null marker.
\<close>

datatype 'a cell = Str string | Obj 'a

fun astype_str :: "('a \<Rightarrow> string) \<Rightarrow> 'a cell \<Rightarrow> string" where
  "astype_str py_str (Str s) = s"
| "astype_str py_str (Obj a) = py_str a"

record 'c frame =
  columns :: "string list"
  rows :: "'c list list"

text \<open>\<open>pd.DataFrame()\<close>, and \<open>df.empty\<close>: true when either axis has length 0.\<close>

definition empty_frame :: "'c frame" where
  "empty_frame = \<lparr>columns = [], rows = []\<rparr>"

definition df_empty :: "'c frame \<Rightarrow> bool" where
  "df_empty df = (columns df = [] \<or> rows df = [])"

text \<open>A frame is rectangular: pandas has no other kind.\<close>

definition rectangular :: "'c frame \<Rightarrow> bool" where
  "rectangular df = list_all (\<lambda>r. length r = length (columns df)) (rows df)"

text \<open>\<open>row[c]\<close>: the cells of a row under label \<open>c\<close> (one cell when the label is unique),
  and \<open>row[cs].values\<close>: the cells under each label of \<open>cs\<close>, in the order of \<open>cs\<close>.\<close>

definition getitem :: "string list \<Rightarrow> 'c list \<Rightarrow> string \<Rightarrow> 'c list" where
  "getitem cols r c = map snd (filter (\<lambda>p. fst p = c) (zip cols r))"

definition getitems :: "string list \<Rightarrow> 'c list \<Rightarrow> string list \<Rightarrow> 'c list" where
  "getitems cols r cs = concat (map (getitem cols r) cs)"

text \<open>\<open>df.drop(columns=cs, errors='ignore')\<close>: every column whose label is in \<open>cs\<close> goes.\<close>

definition drop_columns :: "string list \<Rightarrow> 'c frame \<Rightarrow> 'c frame" where
  "drop_columns cs df =
     \<lparr>columns = filter (\<lambda>l. l \<notin> set cs) (columns df),
      rows = map (\<lambda>r. map snd (filter (\<lambda>p. fst p \<notin> set cs) (zip (columns df) r))) (rows df)\<rparr>"

text \<open>\<open>Index.get_loc(c)\<close>: \<open>KeyError\<close> when the label is absent (\<open>None\<close>), its position when
  it occurs once, and a slice or a mask, not a position, when it occurs more than once.\<close>

datatype loc = Position nat | Slice_or_mask

fun first_index :: "'a list \<Rightarrow> 'a \<Rightarrow> nat" where
  "first_index [] c = 0"
| "first_index (l # ls) c = (if l = c then 0 else Suc (first_index ls c))"

definition get_loc :: "string list \<Rightarrow> string \<Rightarrow> loc option" where
  "get_loc cols c =
     (if c \<notin> set cols then None
      else if count_list cols c = 1 then Some (Position (first_index cols c))
      else Some Slice_or_mask)"

text \<open>\<open>df[c] = f(df[c])\<close> for a cell-wise \<open>f\<close>: every column labelled \<open>c\<close> is rewritten.\<close>

fun map_labelled :: "(string \<Rightarrow> 'c \<Rightarrow> 'c) \<Rightarrow> string list \<Rightarrow> 'c list \<Rightarrow> 'c list" where
  "map_labelled f (l # ls) (v # vs) = f l v # map_labelled f ls vs"
| "map_labelled f ls vs = vs"

definition setitem :: "string \<Rightarrow> ('c \<Rightarrow> 'c) \<Rightarrow> 'c frame \<Rightarrow> 'c frame" where
  "setitem c f df =
     df\<lparr>rows := map (map_labelled (\<lambda>l v. if l = c then f v else v) (columns df)) (rows df)\<rparr>"


section \<open>Loading: \<open>load_data\<close>\<close>

text \<open>What the page shows, in order. The messages are the source's literals:
  \<^item> \<open>File_not_found\<close>: "FATAL ERROR: The data file '...' was not found."
  \<^item> \<open>Check_folder\<close>: "Please make sure the file is in the same folder ..."
  \<^item> \<open>Pivot_missing\<close>: "CRITICAL ERROR: The required column 'WY event' was not found in the CSV file."
  \<^item> \<open>Loading_failed\<close>: "CRITICAL ERROR while loading data: ..."
  \<^item> \<open>Cannot_proceed\<close>: "Data could not be loaded or the file is empty. The application cannot proceed."
  \<^item> \<open>No_rules_found\<close>: "No rules found for the selected criteria."

  A rule card is what one turn of the loop of \<open>display_merged_rules\<close> draws: the counter,
  one line per input column that has values left (the column and \<open>sorted(cleaned_vals)\<close>,
  which the page joins with \<open>' / '\<close>), one line per output column with a non-blank value,
  and \<open>displayed_output\<close>, false when the note "No specific output attributes for this
  rule." is drawn instead.\<close>

datatype msg = File_not_found | Check_folder | Pivot_missing | Loading_failed
  | Cannot_proceed | No_rules_found

record rule_card =
  rule_counter :: nat
  input_conditions :: "(string \<times> string list) list"
  common_output :: "(string \<times> string) list"
  displayed_output :: bool

datatype ui = St_error msg | St_warning msg | St_info msg | St_stop
  | Selectbox "string list" | Multiselect "string list" | Header string
  | Subheader nat | Rule rule_card

text \<open>An exception nothing catches ends the run.\<close>

datatype py_error = KeyError | AttributeError | ValueError

definition cols_to_drop :: "string list" where
  "cols_to_drop = [''SB attributes'', ''WY attributes'']"

text \<open>The two loops of \<open>load_data\<close> over the input and the output columns (lines 42 to 51):
  \<open>df[col] = df[col].astype(str).str.replace('~', 'NOT', regex=False)\<close> for the input
  columns, then \<open>df[col] = df[col].astype(str)\<close> for the output columns. Under a label that
  occurs twice \<open>df[col]\<close> is a frame, which has no \<open>.str\<close>: the first loop raises
  \<open>AttributeError\<close> (\<open>None\<close>).\<close>

definition normalize_cells ::
  "('a \<Rightarrow> string) \<Rightarrow> string list \<Rightarrow> string list \<Rightarrow> 'a cell frame \<Rightarrow> 'a cell frame option" where
  "normalize_cells py_str input_cols output_cols df =
     (if \<exists>c \<in> set input_cols. 1 < count_list (columns df) c then None
      else
        let df1 = foldl (\<lambda>d col. if col \<in> set (columns d)
                           then setitem col (\<lambda>v. Str (replace_tilde (astype_str py_str v))) d
                           else d) df input_cols;
            df2 = foldl (\<lambda>d col. if col \<in> set (columns d)
                           then setitem col (\<lambda>v. Str (astype_str py_str v)) d
                           else d) df1 output_cols
        in Some df2)"

text \<open>What the two loops together do to one cell, by the label of its column;
  \<open>normalize_cells_eq\<close> below proves it of \<open>normalize_cells\<close>.\<close>

definition norm_cell ::
  "('a \<Rightarrow> string) \<Rightarrow> string list \<Rightarrow> string list \<Rightarrow> string \<Rightarrow> 'a cell \<Rightarrow> 'a cell" where
  "norm_cell py_str input_cols output_cols l v =
     (if l \<in> set input_cols then Str (replace_tilde (astype_str py_str v))
      else if l \<in> set output_cols then Str (astype_str py_str v)
      else v)"

text \<open>The frame \<open>load_data\<close> returns holds strings only, since every column is an input
  or an output column; \<open>as_strings\<close> records that in the type.\<close>

definition as_strings :: "('a \<Rightarrow> string) \<Rightarrow> 'a cell frame \<Rightarrow> string frame" where
  "as_strings py_str df = \<lparr>columns = columns df, rows = map (map (astype_str py_str)) (rows df)\<rparr>"

definition of_strings :: "string frame \<Rightarrow> 'a cell frame" where
  "of_strings df = \<lparr>columns = columns df, rows = map (map Str) (rows df)\<rparr>"

text \<open>What \<open>pd.read_csv\<close> finds at the path: no file, a file it cannot parse, or a table.
  In the first two cases it raises, and the outer \<open>except Exception\<close> of \<open>load_data\<close>
  reports the failure; so it does when \<open>get_loc\<close> returns no position and the slicing of
  the header raises, and when the first loop raises.\<close>

datatype 'a csv_file = Missing | Unreadable | Parsed "'a cell frame"

text \<open>\<open>load_data\<close> returns the messages it has shown with \<open>st.error\<close>, the frame and the
  two column lists; on every failure the frame is \<open>pd.DataFrame()\<close> and the lists are empty.\<close>

definition load_data ::
  "('a \<Rightarrow> string) \<Rightarrow> 'a csv_file \<Rightarrow> ui list \<times> string frame \<times> string list \<times> string list" where
  "load_data py_str f =
     (case f of
        Parsed raw \<Rightarrow>
          let df = drop_columns cols_to_drop raw in
          (case get_loc (columns df) ''WY event'' of
             None \<Rightarrow> ([St_error Pivot_missing], empty_frame, [], [])
           | Some Slice_or_mask \<Rightarrow> ([St_error Loading_failed], empty_frame, [], [])
           | Some (Position wy_event_index) \<Rightarrow>
               let input_cols = take wy_event_index (columns df);
                   output_cols = drop wy_event_index (columns df);
                   df = df\<lparr>columns := map strip (columns df)\<rparr>;
                   input_cols = map strip input_cols;
                   output_cols = map strip output_cols
               in (case normalize_cells py_str input_cols output_cols df of
                     None \<Rightarrow> ([St_error Loading_failed], empty_frame, [], [])
                   | Some df \<Rightarrow> ([], as_strings py_str df, input_cols, output_cols)))
      | _ \<Rightarrow> ([St_error Loading_failed], empty_frame, [], []))"

section \<open>Filtering: the selectors of \<open>main\<close>\<close>

text \<open>\<open>df[c]\<close> as a series, for a label that occurs once.\<close>

definition column :: "'c frame \<Rightarrow> string \<Rightarrow> 'c list" where
  "column df c = concat (map (\<lambda>r. getitem (columns df) r c) (rows df))"

text \<open>Lines 148 to 153: \<open>df.copy()\<close> under \<open>'All'\<close>, else
  \<open>df[df['WY event'] == selected_event]\<close>.\<close>

definition primary_filter :: "string frame \<Rightarrow> string \<Rightarrow> string frame" where
  "primary_filter df selected_event =
     (if selected_event = ''All'' then df
      else df\<lparr>rows := filter (\<lambda>r. getitem (columns df) r ''WY event'' = [selected_event])
                          (rows df)\<rparr>)"

text \<open>Lines 157 to 160: the values of the output columns, row by row
  (\<open>.values.ravel()\<close>), made unique, without the blank ones and the selected event.\<close>

definition cleaned_attributes :: "string frame \<Rightarrow> string list \<Rightarrow> string \<Rightarrow> string list" where
  "cleaned_attributes filtered_df output_cols selected_event =
     (let all_output_values =
            concat (map (\<lambda>r. getitems (columns filtered_df) r output_cols) (rows filtered_df));
          unique_attributes = py_unique all_output_values
      in filter (\<lambda>attr. strip attr \<noteq> '''' \<and> attr \<noteq> selected_event) unique_attributes)"

text \<open>Lines 169 to 179: with a selection, the mask
  \<open>all(attr in row[output_cols].values for attr in selected_attributes)\<close>.\<close>

definition secondary_filter :: "string frame \<Rightarrow> string list \<Rightarrow> string list \<Rightarrow> string frame" where
  "secondary_filter filtered_df output_cols selected_attributes =
     (if selected_attributes \<noteq> []
      then filtered_df\<lparr>rows :=
             filter (\<lambda>row. list_all (\<lambda>attr. attr \<in> set (getitems (columns filtered_df) row output_cols))
                                     selected_attributes)
                    (rows filtered_df)\<rparr>
      else filtered_df)"


section \<open>Grouping: \<open>display_merged_rules\<close>\<close>

text \<open>\<open>df.groupby(by=keys, dropna=False)\<close> with the default \<open>sort=True\<close>: one group per
  tuple of key values that occurs, the groups in ascending order of the tuple, each group
  holding its rows in frame order. \<open>groupby\<close> raises when there is no key, when a key is
  not a label (\<open>KeyError\<close>), and when a key labels two columns (\<open>ValueError\<close>: the grouper
  is not one-dimensional).\<close>

definition groups_of :: "string frame \<Rightarrow> string list \<Rightarrow> (string list \<times> string list list) list" where
  "groups_of df keys =
     map (\<lambda>k. (k, filter (\<lambda>r. getitems (columns df) r keys = k) (rows df)))
         (sort (py_unique (map (\<lambda>r. getitems (columns df) r keys) (rows df))))"

definition groupby ::
  "string frame \<Rightarrow> string list \<Rightarrow> py_error + (string list \<times> string list list) list" where
  "groupby df keys =
     (if keys = [] then Inl ValueError
      else if \<exists>c \<in> set keys. c \<notin> set (columns df) then Inl KeyError
      else if \<exists>c \<in> set keys. 1 < count_list (columns df) c then Inl ValueError
      else Inr (groups_of df keys))"

text \<open>\<open>dict(zip(ks, vs))\<close>: a key keeps the place of its first occurrence and the value of
  its last.\<close>

fun dict_set :: "('k \<times> 'v) list \<Rightarrow> 'k \<Rightarrow> 'v \<Rightarrow> ('k \<times> 'v) list" where
  "dict_set [] k v = [(k, v)]"
| "dict_set (p # ps) k v = (if fst p = k then (k, v) # ps else p # dict_set ps k v)"

definition py_dict :: "('k \<times> 'v) list \<Rightarrow> ('k \<times> 'v) list" where
  "py_dict kvs = foldl (\<lambda>d kv. dict_set d (fst kv) (snd kv)) [] kvs"

text \<open>Lines 84 to 93, the left half of a card: for each input column,
  \<open>group[col].unique()\<close>, without the values that strip to nothing or to \<open>NOT\<close>, sorted;
  a column with nothing left draws no line.\<close>

definition merged_inputs ::
  "string list \<Rightarrow> string list \<Rightarrow> string list list \<Rightarrow> (string \<times> string list) list" where
  "merged_inputs cols input_cols group_rows =
     concat (map (\<lambda>col.
        let unique_vals = py_unique (concat (map (\<lambda>r. getitem cols r col) group_rows));
            cleaned_vals = filter (\<lambda>v. strip v \<noteq> '''' \<and> strip v \<noteq> ''NOT'') unique_vals
        in if cleaned_vals \<noteq> [] then [(col, sort cleaned_vals)] else []) input_cols)"

text \<open>Lines 98 to 111, the right half: the pairs of \<open>dict(zip(output_cols, output_values))\<close>
  whose value does not strip to nothing.\<close>

definition shown_outputs :: "string list \<Rightarrow> string list \<Rightarrow> (string \<times> string) list" where
  "shown_outputs output_cols output_values =
     filter (\<lambda>cv. strip (snd cv) \<noteq> '''') (py_dict (zip output_cols output_values))"

definition draw_card ::
  "string list \<Rightarrow> string list \<Rightarrow> string list \<Rightarrow> nat \<times> string list \<times> string list list \<Rightarrow> rule_card" where
  "draw_card cols input_cols output_cols g =
     (let output_values = fst (snd g); group_rows = snd (snd g);
          outs = shown_outputs output_cols output_values
      in \<lparr>rule_counter = fst g,
          input_conditions = merged_inputs cols input_cols group_rows,
          common_output = outs,
          displayed_output = (outs \<noteq> [])\<rparr>)"

text \<open>\<open>group[col].unique()\<close> raises \<open>KeyError\<close> for a column that is not there and
  \<open>AttributeError\<close> for a label of two columns (a frame has no \<open>unique\<close>).\<close>

definition display_merged_rules ::
  "string frame \<Rightarrow> string list \<Rightarrow> string list \<Rightarrow> py_error + ui list" where
  "display_merged_rules df input_cols output_cols =
     (if df_empty df then Inr [St_warning No_rules_found]
      else case groupby df output_cols of
        Inl e \<Rightarrow> Inl e
      | Inr grouped \<Rightarrow>
          if \<exists>c \<in> set input_cols. c \<notin> set (columns df) then Inl KeyError
          else if \<exists>c \<in> set input_cols. 1 < count_list (columns df) c then Inl AttributeError
          else Inr (Subheader (length grouped)
                    # map (\<lambda>g. Rule (draw_card (columns df) input_cols output_cols g))
                          (enumerate 1 grouped)))"


section \<open>The application: \<open>main\<close>\<close>

text \<open>One run of the script: the file, and what the two widgets return. The select box
  returns one of its options and the multiselect a list of its options.\<close>

definition main ::
  "('a \<Rightarrow> string) \<Rightarrow> 'a csv_file \<Rightarrow> string \<Rightarrow> string list \<Rightarrow> py_error + ui list" where
  "main py_str f selected_event selected_attributes =
     (case f of
        Missing \<Rightarrow> Inr [St_error File_not_found, St_info Check_folder, St_stop]
      | _ \<Rightarrow>
        (case load_data py_str f of (shown, df, input_cols, output_cols) \<Rightarrow>
          if df_empty df then Inr (shown @ [St_warning Cannot_proceed, St_stop])
          else if ''WY event'' \<notin> set (columns df) then Inl KeyError
          else if 1 < count_list (columns df) ''WY event'' then Inl AttributeError
          else
            let wy_event_options = sort (py_unique (column df ''WY event''));
                options_with_all = ''All'' # wy_event_options;
                filtered_df = primary_filter df selected_event;
                cleaned = cleaned_attributes filtered_df output_cols selected_event;
                final_df = secondary_filter filtered_df output_cols selected_attributes
            in (case display_merged_rules final_df input_cols output_cols of
                  Inl e \<Rightarrow> Inl e
                | Inr cards \<Rightarrow>
                    Inr (shown @ [Selectbox options_with_all, Multiselect (sort cleaned),
                                  Header selected_event] @ cards))))"

section \<open>Example tables\<close>

text \<open>A parsed file with a dropped column, labels with surrounding blanks, negation
  markers and cells that are not strings, and the table \<open>load_data\<close> makes of it.\<close>

definition unit_str :: "unit \<Rightarrow> string" where
  "unit_str u = ''()''"

definition example_raw :: "unit cell frame" where
  "example_raw = \<lparr>columns = [''SB event'', ''SB type '', ''SB attributes'', ''WY event'', '' WY type''],
     rows = [[Str ''click'', Str ''~a'', Str ''x'', Str ''tap'', Str ''All''],
             [Str ''view'', Str ''b ~ NOT'', Obj (), Str ''tap'', Str ''All''],
             [Str ''view'', Str ''~'', Str '''', Str ''open'', Str ''Z''],
             [Obj (), Str ''c'', Str '''', Str ''open'', Str '''']]\<rparr>"

definition example_rules :: "string frame" where
  "example_rules = \<lparr>columns = [''SB event'', ''SB type'', ''WY event'', ''WY type''],
     rows = [[''click'', ''NOTa'', ''tap'', ''All''],
             [''view'', ''b NOT NOT'', ''tap'', ''All''],
             [''view'', ''NOT'', ''open'', ''Z''],
             [''()'', ''c'', ''open'', '''']]\<rparr>"

text \<open>The table of the specification's worked example, with its pivot named \<open>Out1\<close>, and
  the same rows with the pivot under the one label \<open>load_data\<close> looks for.\<close>

definition spec_example :: "unit cell frame" where
  "spec_example = \<lparr>columns = [''Event'', ''A'', ''B'', ''Out1''],
     rows = [[Str ''X'', Str ''~p'', Str '''', Str ''Y''],
             [Str ''X'', Str ''q'', Str '''', Str ''Y'']]\<rparr>"

definition spec_example_wy :: "unit cell frame" where
  "spec_example_wy = \<lparr>columns = [''Event'', ''A'', ''B'', ''WY event''],
     rows = [[Str ''X'', Str ''~p'', Str '''', Str ''Y''],
             [Str ''X'', Str ''q'', Str '''', Str ''Y'']]\<rparr>"

section \<open>Facts about the helpers\<close>

lemma set_py_unique: "set (py_unique xs) = set xs"
  by (induction xs) auto

lemma distinct_py_unique: "distinct (py_unique xs)"
  by (induction xs) (auto simp: set_py_unique distinct_filter)

lemma set_getitems: "set (getitems cols r cs) = (\<Union>c \<in> set cs. set (getitem cols r c))"
  by (simp add: getitems_def)

lemma length_getitem:
  "length r = length r' \<Longrightarrow> length (getitem cols r c) = length (getitem cols r' c)"
proof -
  assume "length r = length r'"
  then have "map fst (zip cols r) = map fst (zip cols r')"
    by (induction cols arbitrary: r r') (auto simp: zip_Cons1 split: list.splits)
  then have "length (filter (\<lambda>l. l = c) (map fst (zip cols r)))
           = length (filter (\<lambda>l. l = c) (map fst (zip cols r')))" by simp
  then show ?thesis by (simp add: getitem_def filter_map comp_def)
qed

lemma getitems_eq_iff:
  assumes "length r = length r'"
  shows "getitems cols r cs = getitems cols r' cs
         \<longleftrightarrow> (\<forall>c \<in> set cs. getitem cols r c = getitem cols r' c)"
proof (induction cs)
  case Nil
  show ?case by (simp add: getitems_def)
next
  case (Cons c cs)
  have "length (getitem cols r c) = length (getitem cols r' c)"
    using assms by (rule length_getitem)
  with Cons show ?case by (simp add: getitems_def)
qed

lemma count_once_mem: "count_list xs c = Suc 0 \<Longrightarrow> c \<in> set xs"
  by (metis count_list_0_iff nat.distinct(1))

lemma strip_wy_event: "strip ''WY event'' = ''WY event''"
  by code_simp

text \<open>The no-break space U+00A0 and the em space U+2003 are stripped like a blank.\<close>

lemma strip_unicode_space:
  "strip ([CHR 0xC2, CHR 0xA0] @ ''WY event'' @ [CHR 0xE2, CHR 0x80, CHR 0x83]) = ''WY event''"
  by code_simp

lemma replace_tilde_append: "replace_tilde (a @ b) = replace_tilde a @ replace_tilde b"
  by (simp add: replace_tilde_def)

text \<open>\<open>NOT\<close> holds no \<open>~\<close>, so a second replacement finds nothing to rewrite.\<close>

lemma replace_tilde_idem: "replace_tilde (replace_tilde s) = replace_tilde s"
proof (induction s)
  case Nil
  show ?case by (simp add: replace_tilde_def)
next
  case (Cons c s)
  have split: "replace_tilde (c # s) = replace_tilde [c] @ replace_tilde s"
    by (simp add: replace_tilde_def)
  have one: "replace_tilde (replace_tilde [c]) = replace_tilde [c]"
    by (simp add: replace_tilde_def)
  show ?case
    unfolding split replace_tilde_append one Cons.IH ..
qed

lemma sort_filter_unique_cong:
  fixes xs ys :: "'a::linorder list"
  assumes "set xs = set ys"
  shows "sort (filter P (py_unique xs)) = sort (filter P (py_unique ys))"
  by (rule sorted_distinct_set_unique)
     (simp_all add: distinct_py_unique set_py_unique assms)

lemma filter_unique_empty_cong:
  assumes "set xs = set ys"
  shows "(filter P (py_unique xs) = []) = (filter P (py_unique ys) = [])"
  by (simp add: filter_empty_conv set_py_unique assms)

lemma sort_unique_cong:
  fixes xs ys :: "'a::linorder list"
  assumes "set xs = set ys"
  shows "sort (py_unique xs) = sort (py_unique ys)"
  by (rule sorted_distinct_set_unique)
     (simp_all add: distinct_py_unique set_py_unique assms)


section \<open>The loops of \<open>load_data\<close>\<close>

lemma map_labelled_id: "(\<And>l v. l \<in> set ls \<Longrightarrow> f l v = v) \<Longrightarrow> map_labelled f ls vs = vs"
  by (induction f ls vs rule: map_labelled.induct) auto

lemma map_labelled_comp:
  "map_labelled g ls (map_labelled h ls vs) = map_labelled (\<lambda>l v. g l (h l v)) ls vs"
  by (induction h ls vs rule: map_labelled.induct) auto

lemma map_labelled_cong:
  "(\<And>l v. l \<in> set ls \<Longrightarrow> f l v = g l v) \<Longrightarrow> map_labelled f ls vs = map_labelled g ls vs"
  by (induction f ls vs rule: map_labelled.induct) auto

lemma map_labelled_after_map:
  "(\<And>l v. l \<in> set ls \<Longrightarrow> f l (g (h l v)) = g (h l v))
   \<Longrightarrow> map_labelled f ls (map g (map_labelled h ls vs)) = map g (map_labelled h ls vs)"
  by (induction h ls vs rule: map_labelled.induct) (auto intro: map_labelled_id)

lemma setitem_absent: "c \<notin> set (columns d) \<Longrightarrow> setitem c f d = d"
proof -
  assume "c \<notin> set (columns d)"
  then have "map (map_labelled (\<lambda>l v. if l = c then f v else v) (columns d)) (rows d) = rows d"
    by (intro map_idI map_labelled_id) auto
  then show ?thesis by (simp add: setitem_def)
qed

lemma rows_twice:
  assumes "\<And>l v. l \<in> set ls \<Longrightarrow> g l (h l v) = k l v"
  shows "map (map_labelled g ls) (map (map_labelled h ls) rs) = map (map_labelled k ls) rs"
  unfolding map_map comp_def map_labelled_comp
  by (intro map_cong refl map_labelled_cong assms)

text \<open>A loop \<open>for col in cs: if col in df.columns: df[col] = f(df[col])\<close> with an
  idempotent \<open>f\<close> rewrites the columns whose label is in \<open>cs\<close>, once.\<close>

lemma loop_setitem:
  fixes df :: "'c frame"
  assumes idem: "\<And>v. f (f v) = f v"
  shows "foldl (\<lambda>d col. if col \<in> set (columns d) then setitem col f d else d) df cs
       = df\<lparr>rows := map (map_labelled (\<lambda>l v. if l \<in> set cs then f v else v) (columns df)) (rows df)\<rparr>"
proof (induction cs rule: rev_induct)
  case Nil
  have "map (map_labelled (\<lambda>l v. v) (columns df)) (rows df) = rows df"
    by (intro map_idI map_labelled_id) auto
  then show ?case by simp
next
  case (snoc c cs)
  let ?d = "df\<lparr>rows := map (map_labelled (\<lambda>l v. if l \<in> set cs then f v else v) (columns df)) (rows df)\<rparr>"
  have step: "(if c \<in> set (columns ?d) then setitem c f ?d else ?d) = setitem c f ?d"
    by (simp add: setitem_absent)
  have rs: "map (map_labelled (\<lambda>l v. if l = c then f v else v) (columns df))
              (map (map_labelled (\<lambda>l v. if l \<in> set cs then f v else v) (columns df)) (rows df))
          = map (map_labelled (\<lambda>l v. if l \<in> set (cs @ [c]) then f v else v) (columns df)) (rows df)"
    by (rule rows_twice) (simp add: idem)
  have "setitem c f ?d
      = df\<lparr>rows := map (map_labelled (\<lambda>l v. if l \<in> set (cs @ [c]) then f v else v) (columns df)) (rows df)\<rparr>"
    unfolding setitem_def using rs by simp
  with step snoc show ?case by simp
qed

lemma normalize_cells_eq:
  "normalize_cells py_str ic oc df =
     (if \<exists>c \<in> set ic. 1 < count_list (columns df) c then None
      else Some (df\<lparr>rows := map (map_labelled (norm_cell py_str ic oc) (columns df)) (rows df)\<rparr>))"
proof -
  have i1: "\<And>v. Str (replace_tilde (astype_str py_str (Str (replace_tilde (astype_str py_str v)))))
              = Str (replace_tilde (astype_str py_str v))"
    by (simp add: replace_tilde_idem)
  have i2: "\<And>v. Str (astype_str py_str (Str (astype_str py_str v))) = Str (astype_str py_str v)"
    by simp
  have rs: "map (map_labelled (\<lambda>l v. if l \<in> set oc then Str (astype_str py_str v) else v) (columns df))
              (map (map_labelled (\<lambda>l v. if l \<in> set ic then Str (replace_tilde (astype_str py_str v)) else v)
                     (columns df)) (rows df))
          = map (map_labelled (norm_cell py_str ic oc) (columns df)) (rows df)"
    by (rule rows_twice) (simp add: norm_cell_def)
  show ?thesis
    unfolding normalize_cells_def Let_def
      loop_setitem[where f = "\<lambda>v. Str (replace_tilde (astype_str py_str v))", OF i1]
      loop_setitem[where f = "\<lambda>v. Str (astype_str py_str v)", OF i2]
    using rs by simp
qed

lemma norm_cell_idem:
  "norm_cell py_str ic oc l (norm_cell py_str ic oc l v) = norm_cell py_str ic oc l v"
  by (simp add: norm_cell_def replace_tilde_idem)

lemma normalize_cells_again:
  assumes "normalize_cells py_str ic oc df = Some df'"
  shows "normalize_cells py_str ic oc df' = Some df'"
proof -
  from assms have nodup: "\<not> (\<exists>c \<in> set ic. 1 < count_list (columns df) c)"
    and df': "df' = df\<lparr>rows := map (map_labelled (norm_cell py_str ic oc) (columns df)) (rows df)\<rparr>"
    by (auto simp: normalize_cells_eq split: if_splits)
  have cols: "columns df' = columns df" by (simp add: df')
  have "map (map_labelled (norm_cell py_str ic oc) (columns df')) (rows df') = rows df'"
    by (simp add: df' map_labelled_comp norm_cell_idem)
  then have "df'\<lparr>rows := map (map_labelled (norm_cell py_str ic oc) (columns df')) (rows df')\<rparr> = df'"
    by simp
  with nodup cols show ?thesis by (simp add: normalize_cells_eq)
qed

lemma normalize_cells_strings:
  assumes "normalize_cells py_str ic oc df = Some df'"
  shows "normalize_cells py_str' ic oc (of_strings (as_strings py_str df'))
           = Some (of_strings (as_strings py_str df'))"
proof -
  from assms have nodup: "\<not> (\<exists>c \<in> set ic. 1 < count_list (columns df) c)"
    and df': "df' = df\<lparr>rows := map (map_labelled (norm_cell py_str ic oc) (columns df)) (rows df)\<rparr>"
    by (auto simp: normalize_cells_eq split: if_splits)
  let ?s = "of_strings (as_strings py_str df') :: 'b cell frame"
  have cols: "columns ?s = columns df" by (simp add: df' of_strings_def as_strings_def)
  have rws: "rows ?s = map (\<lambda>r. map (\<lambda>v. Str (astype_str py_str v))
                                 (map_labelled (norm_cell py_str ic oc) (columns df) r)) (rows df)"
    by (simp add: df' of_strings_def as_strings_def comp_def)
  have "map (map_labelled (norm_cell py_str' ic oc) (columns ?s)) (rows ?s) = rows ?s"
    unfolding cols rws map_map comp_def
    by (intro map_cong refl map_labelled_after_map) (simp add: norm_cell_def replace_tilde_idem)
  then have "?s\<lparr>rows := map (map_labelled (norm_cell py_str' ic oc) (columns ?s)) (rows ?s)\<rparr> = ?s"
    by simp
  with nodup cols show ?thesis by (simp add: normalize_cells_eq)
qed

text \<open>
  Claim C7. The normalizer is idempotent: the normalization step of \<open>load_data\<close> (the two
  loops that coerce every cell to a string and rewrite each \<open>~\<close> of an input column to
  \<open>NOT\<close>), applied to a table it has already normalized, returns that table. This holds
  of the table the loops leave, and of the table of strings \<open>load_data\<close> returns when it is
  read back as a frame of strings; no \<open>NOT\<close> is rewritten a second time.
\<close>

theorem normalizer_idempotent:
  assumes "normalize_cells py_str input_cols output_cols df = Some df'"
  shows "normalize_cells py_str input_cols output_cols df' = Some df'
       \<and> normalize_cells py_str' input_cols output_cols (of_strings (as_strings py_str df'))
           = Some (of_strings (as_strings py_str df'))"
  using normalize_cells_again[OF assms] normalize_cells_strings[OF assms] by simp

theorem normalizer_idempotent_witness:
  "normalize_cells unit_str [''SB type''] [''WY event'']
      \<lparr>columns = [''SB type'', ''WY event''], rows = [[Str ''NOTa NOT NOT'', Str ''()'']]\<rparr>
    = Some \<lparr>columns = [''SB type'', ''WY event''], rows = [[Str ''NOTa NOT NOT'', Str ''()'']]\<rparr>"
proof -
  have h: "normalize_cells unit_str [''SB type''] [''WY event'']
              \<lparr>columns = [''SB type'', ''WY event''], rows = [[Str ''~a NOT ~'', Obj ()]]\<rparr>
         = Some \<lparr>columns = [''SB type'', ''WY event''], rows = [[Str ''NOTa NOT NOT'', Str ''()'']]\<rparr>"
    by (simp add: normalize_cells_eq norm_cell_def replace_tilde_def unit_str_def)
  from normalizer_idempotent[OF h, where py_str' = unit_str] show ?thesis by (rule conjunct1)
qed

section \<open>Loading fails without the exact pivot label\<close>

lemma columns_drop_columns:
  "columns (drop_columns cs df) = filter (\<lambda>l. l \<notin> set cs) (columns df)"
  by (simp add: drop_columns_def)

lemma get_loc_absent: "c \<notin> set cols \<Longrightarrow> get_loc cols c = None"
  by (simp add: get_loc_def)

lemma load_pivot_absent:
  assumes "''WY event'' \<notin> set (columns raw)"
  shows "load_data py_str (Parsed raw) = ([St_error Pivot_missing], empty_frame, [], [])"
proof -
  have "''WY event'' \<notin> set (columns (drop_columns cols_to_drop raw))"
    using assms by (simp add: columns_drop_columns)
  then have "get_loc (columns (drop_columns cols_to_drop raw)) ''WY event'' = None"
    by (rule get_loc_absent)
  then show ?thesis by (simp add: load_data_def)
qed

text \<open>
  Claim C10. Pivot detection reads the header before it is trimmed: when a column label
  of the parsed file equals \<open>WY event\<close> only after stripping, and no label is \<open>WY event\<close>
  as written, \<open>load_data\<close> shows the pivot-missing error and returns the empty frame and
  empty column lists, and \<open>main\<close> stops; the trimming further down in \<open>load_data\<close> is
  never reached.
\<close>

theorem pivot_detection_untrimmed:
  assumes "c \<in> set (columns raw)" and "strip c = ''WY event''"
    and "''WY event'' \<notin> set (columns raw)"
  shows "load_data py_str (Parsed raw) = ([St_error Pivot_missing], empty_frame, [], [])
       \<and> main py_str (Parsed raw) selected_event selected_attributes
           = Inr [St_error Pivot_missing, St_warning Cannot_proceed, St_stop]"
proof -
  have l: "load_data py_str (Parsed raw) = ([St_error Pivot_missing], empty_frame, [], [])"
    using assms(3) by (rule load_pivot_absent)
  then show ?thesis by (simp add: main_def empty_frame_def df_empty_def)
qed

theorem pivot_detection_untrimmed_witness:
  "strip '' WY event'' = ''WY event''
   \<and> load_data unit_str
        (Parsed \<lparr>columns = [''SB event'', '' WY event''], rows = [[Str ''~x'', Obj ()]]\<rparr>)
       = ([St_error Pivot_missing], empty_frame, [], [])
   \<and> main unit_str
        (Parsed \<lparr>columns = [''SB event'', '' WY event''], rows = [[Str ''~x'', Obj ()]]\<rparr>) ''All'' []
       = Inr [St_error Pivot_missing, St_warning Cannot_proceed, St_stop]"
proof -
  let ?raw = "\<lparr>columns = [''SB event'', '' WY event''], rows = [[Str ''~x'', Obj ()]]\<rparr> :: unit cell frame"
  have h1: "'' WY event'' \<in> set (columns ?raw)" by simp
  have h2: "strip '' WY event'' = ''WY event''" by code_simp
  have h3: "''WY event'' \<notin> set (columns ?raw)" by simp
  from pivot_detection_untrimmed [OF h1 h2 h3, of unit_str "''All''" "[]"] h2
  show ?thesis by simp
qed


section \<open>The secondary filter\<close>

lemma secondary_filter_rows:
  "rows (secondary_filter df output_cols sel) =
     filter (\<lambda>row. \<forall>attr \<in> set sel. attr \<in> set (getitems (columns df) row output_cols)) (rows df)"
  by (cases sel) (simp_all add: secondary_filter_def list_all_iff)

text \<open>
  Claim C2. For a non-empty selection of attribute strings and a row of the
  primary-filtered table, the secondary filter keeps the row exactly when each selected
  string is the value of at least one output column of the row (any column will do for one
  attribute, and all attributes must be found). In particular, when two selected attributes
  never occur together among the output values of one row, no row is left.
\<close>

theorem secondary_filter_and_semantics:
  assumes "selected_attributes \<noteq> []" and "row \<in> set (rows filtered_df)"
  shows "(row \<in> set (rows (secondary_filter filtered_df output_cols selected_attributes))
          \<longleftrightarrow> (\<forall>attr \<in> set selected_attributes.
                 \<exists>col \<in> set output_cols. attr \<in> set (getitem (columns filtered_df) row col)))
       \<and> ((\<exists>a \<in> set selected_attributes. \<exists>b \<in> set selected_attributes.
              \<forall>r \<in> set (rows filtered_df).
                \<not> (a \<in> set (getitems (columns filtered_df) r output_cols)
                   \<and> b \<in> set (getitems (columns filtered_df) r output_cols)))
            \<longrightarrow> rows (secondary_filter filtered_df output_cols selected_attributes) = [])"
proof
  show "row \<in> set (rows (secondary_filter filtered_df output_cols selected_attributes))
          \<longleftrightarrow> (\<forall>attr \<in> set selected_attributes.
                 \<exists>col \<in> set output_cols. attr \<in> set (getitem (columns filtered_df) row col))"
    using assms(2) by (simp add: secondary_filter_rows set_getitems)
next
  show "(\<exists>a \<in> set selected_attributes. \<exists>b \<in> set selected_attributes.
              \<forall>r \<in> set (rows filtered_df).
                \<not> (a \<in> set (getitems (columns filtered_df) r output_cols)
                   \<and> b \<in> set (getitems (columns filtered_df) r output_cols)))
            \<longrightarrow> rows (secondary_filter filtered_df output_cols selected_attributes) = []"
    unfolding secondary_filter_rows filter_empty_conv by blast
qed

theorem secondary_filter_and_semantics_witness:
  "[''click'', ''NOTa'', ''tap'', ''All'']
     \<in> set (rows (secondary_filter example_rules [''WY event'', ''WY type''] [''All'', ''tap'']))
   \<and> rows (secondary_filter example_rules [''WY event'', ''WY type''] [''All'', ''Z'']) = []"
proof -
  let ?oc = "[''WY event'', ''WY type'']"
  let ?r = "[''click'', ''NOTa'', ''tap'', ''All'']"
  have h1: "[''All'', ''tap''] \<noteq> ([] :: string list)" by simp
  have h1': "[''All'', ''Z''] \<noteq> ([] :: string list)" by simp
  have h2: "?r \<in> set (rows example_rules)" by (simp add: example_rules_def)
  have found: "\<forall>attr \<in> set [''All'', ''tap''].
                 \<exists>col \<in> set ?oc. attr \<in> set (getitem (columns example_rules) ?r col)"
    by code_simp
  have apart: "\<exists>a \<in> set [''All'', ''Z'']. \<exists>b \<in> set [''All'', ''Z''].
                 \<forall>r \<in> set (rows example_rules).
                   \<not> (a \<in> set (getitems (columns example_rules) r ?oc)
                      \<and> b \<in> set (getitems (columns example_rules) r ?oc))"
    by code_simp
  from secondary_filter_and_semantics[OF h1 h2, of ?oc] found
  have kept: "?r \<in> set (rows (secondary_filter example_rules ?oc [''All'', ''tap'']))" by blast
  from secondary_filter_and_semantics[OF h1' h2, of ?oc] apart
  have none: "rows (secondary_filter example_rules ?oc [''All'', ''Z'']) = []" by blast
  from kept none show ?thesis by blast
qed

text \<open>
  Claim C8. Secondary filtering is monotone: the rows left by a selection \<open>S\<close> are at most
  as many as the rows of the primary-filtered table, and a selection that is \<open>S\<close> with one
  more attribute \<open>a\<close> leaves at most as many rows as \<open>S\<close> does (and only rows that \<open>S\<close>
  leaves).
\<close>

theorem secondary_filter_monotone:
  assumes "set S' = insert a (set S)"
  shows "length (rows (secondary_filter df output_cols S)) \<le> length (rows df)
       \<and> length (rows (secondary_filter df output_cols S'))
           \<le> length (rows (secondary_filter df output_cols S))
       \<and> set (rows (secondary_filter df output_cols S'))
           \<subseteq> set (rows (secondary_filter df output_cols S))"
proof -
  let ?R = "rows (secondary_filter df output_cols S)"
  have eq: "rows (secondary_filter df output_cols S')
      = filter (\<lambda>row. a \<in> set (getitems (columns df) row output_cols)) ?R"
    unfolding secondary_filter_rows filter_filter using assms
    by (intro filter_cong) auto
  have "length ?R \<le> length (rows df)"
    unfolding secondary_filter_rows by (rule length_filter_le)
  moreover have "length (rows (secondary_filter df output_cols S')) \<le> length ?R"
    unfolding eq by (rule length_filter_le)
  moreover have "set (rows (secondary_filter df output_cols S')) \<subseteq> set ?R"
    unfolding eq by simp
  ultimately show ?thesis by blast
qed

theorem secondary_filter_monotone_witness:
  "length (rows (secondary_filter example_rules [''WY event'', ''WY type''] [''open''])) \<le> 4
   \<and> length (rows (secondary_filter example_rules [''WY event'', ''WY type''] [''Z'', ''open'']))
       \<le> length (rows (secondary_filter example_rules [''WY event'', ''WY type''] [''open'']))"
proof -
  have h: "set [''Z'', ''open''] = insert ''Z'' (set [''open''])" by simp
  have n: "length (rows example_rules) = 4" by (simp add: example_rules_def)
  from secondary_filter_monotone[OF h, of example_rules "[''WY event'', ''WY type'']"] n
  show ?thesis by simp
qed

section \<open>Grouping\<close>

lemma groups_of_keys:
  "map fst (groups_of df keys) = sort (py_unique (map (\<lambda>r. getitems (columns df) r keys) (rows df)))"
  by (simp add: groups_of_def comp_def)

lemma set_groups_of:
  "set (groups_of df keys) =
     (\<lambda>r. (getitems (columns df) r keys,
            filter (\<lambda>r'. getitems (columns df) r' keys = getitems (columns df) r keys) (rows df)))
       ` set (rows df)"
  by (auto simp: groups_of_def set_py_unique image_iff)

lemma distinct_groups_of_keys: "distinct (map fst (groups_of df keys))"
  by (simp add: groups_of_keys distinct_py_unique)

lemma sorted_groups_of_keys: "sorted (map fst (groups_of df keys))"
  by (simp add: groups_of_keys)

lemma groupby_ok:
  assumes "keys \<noteq> []" and "\<forall>c \<in> set keys. count_list (columns df) c = 1"
  shows "groupby df keys = Inr (groups_of df keys)"
  using assms by (auto simp: groupby_def dest: count_once_mem)

lemma groupby_Inr: "groupby df keys = Inr grouped \<Longrightarrow> grouped = groups_of df keys"
  by (auto simp: groupby_def split: if_splits)

lemma sum_length_filter_keys:
  assumes "distinct ks" and "K ` set rs \<subseteq> set ks"
  shows "(\<Sum>k\<leftarrow>ks. length (filter (\<lambda>r. K r = k) rs)) = length rs"
  using assms(2)
proof (induction rs)
  case Nil
  show ?case by simp
next
  case (Cons r rs)
  have mem: "K r \<in> set ks" using Cons.prems by simp
  have "(\<Sum>k\<leftarrow>ks. length (filter (\<lambda>r'. K r' = k) (r # rs)))
      = (\<Sum>k\<leftarrow>ks. (if K r = k then 1 else 0) + length (filter (\<lambda>r'. K r' = k) rs))"
    by (intro arg_cong[where f = sum_list] map_cong) auto
  also have "\<dots> = (\<Sum>k\<leftarrow>ks. if K r = k then 1 else 0) + (\<Sum>k\<leftarrow>ks. length (filter (\<lambda>r'. K r' = k) rs))"
    by (simp add: sum_list_addf)
  also have "(\<Sum>k\<leftarrow>ks. if K r = k then 1 else 0) = (1::nat)"
    using assms(1) mem by (simp add: sum_list_distinct_conv_sum_set)
  finally show ?case using Cons by simp
qed

lemma mset_concat_filter_keys:
  assumes "distinct ks" and "K ` set rs \<subseteq> set ks"
  shows "mset (concat (map (\<lambda>k. filter (\<lambda>r. K r = k) rs) ks)) = mset rs"
  using assms(2)
proof (induction rs)
  case Nil
  show ?case by (induction ks) auto
next
  case (Cons r rs)
  have mem: "K r \<in> set ks" using Cons.prems by simp
  have gen: "mset (concat (map (\<lambda>k. filter (\<lambda>r'. K r' = k) (r # rs)) js))
     = mset (concat (map (\<lambda>k. filter (\<lambda>r'. K r' = k) rs) js)) + (if K r \<in> set js then {#r#} else {#})"
    if "distinct js" for js
    using that by (induction js) auto
  show ?case using gen[OF assms(1)] mem Cons by simp
qed

text \<open>
  Claim C4. Grouping is a partition of the filtered rows. When \<open>groupby\<close> does not raise
  (there is an output column, and each output label names one column of the frame), every
  row of the frame is in exactly one group, the member counts of the groups add up to the
  number of rows, and the groups together hold the rows of the frame, each as often as the
  frame does.
\<close>

theorem grouping_is_partition:
  assumes "output_cols \<noteq> []" and "\<forall>c \<in> set output_cols. count_list (columns df) c = 1"
  shows "groupby df output_cols = Inr (groups_of df output_cols)
       \<and> (\<forall>r \<in> set (rows df). \<exists>!g. g \<in> set (groups_of df output_cols) \<and> r \<in> set (snd g))
       \<and> (\<Sum>g\<leftarrow>groups_of df output_cols. length (snd g)) = length (rows df)
       \<and> mset (concat (map snd (groups_of df output_cols))) = mset (rows df)"
proof -
  let ?K = "\<lambda>r. getitems (columns df) r output_cols"
  let ?ks = "sort (py_unique (map ?K (rows df)))"
  have d: "distinct ?ks" by (simp add: distinct_py_unique)
  have c: "?K ` set (rows df) \<subseteq> set ?ks" by (simp add: set_py_unique)
  have 1: "groupby df output_cols = Inr (groups_of df output_cols)"
    using assms by (rule groupby_ok)
  have 2: "\<forall>r \<in> set (rows df). \<exists>!g. g \<in> set (groups_of df output_cols) \<and> r \<in> set (snd g)"
    unfolding set_groups_of by (auto simp: image_iff)
  have 3: "(\<Sum>g\<leftarrow>groups_of df output_cols. length (snd g)) = length (rows df)"
    using sum_length_filter_keys[OF d c] by (simp add: groups_of_def comp_def)
  have 4: "mset (concat (map snd (groups_of df output_cols))) = mset (rows df)"
    using mset_concat_filter_keys[OF d c] by (simp add: groups_of_def comp_def)
  from 1 2 3 4 show ?thesis by blast
qed

theorem grouping_is_partition_witness:
  "groupby example_rules [''WY event'', ''WY type'']
     = Inr (groups_of example_rules [''WY event'', ''WY type''])
   \<and> (\<Sum>g\<leftarrow>groups_of example_rules [''WY event'', ''WY type'']. length (snd g)) = 4
   \<and> (\<exists>!g. g \<in> set (groups_of example_rules [''WY event'', ''WY type''])
           \<and> [''view'', ''NOT'', ''open'', ''Z''] \<in> set (snd g))"
proof -
  have h1: "[''WY event'', ''WY type''] \<noteq> ([] :: string list)" by simp
  have h2: "\<forall>c \<in> set [''WY event'', ''WY type'']. count_list (columns example_rules) c = 1"
    by (simp add: example_rules_def)
  have n: "length (rows example_rules) = 4" by (simp add: example_rules_def)
  have r: "[''view'', ''NOT'', ''open'', ''Z''] \<in> set (rows example_rules)"
    by (simp add: example_rules_def)
  from grouping_is_partition[OF h1 h2] n r show ?thesis by simp
qed

text \<open>
  Claim C1. Two rows of the filtered, normalized table are placed in the same group
  exactly when their values agree, as strings, in every output column; equivalently, when
  their tuples of output values, taken in output-column order, are equal. The empty
  string is a value like any other. The hypotheses say that \<open>groupby\<close> does not raise and
  that the frame is rectangular.
\<close>

theorem same_group_iff_same_outputs:
  assumes "output_cols \<noteq> []" and "\<forall>c \<in> set output_cols. count_list (columns df) c = 1"
    and "rectangular df"
    and "r1 \<in> set (rows df)" and "r2 \<in> set (rows df)"
  shows "groupby df output_cols = Inr (groups_of df output_cols)
       \<and> ((\<exists>g \<in> set (groups_of df output_cols). r1 \<in> set (snd g) \<and> r2 \<in> set (snd g))
            \<longleftrightarrow> (\<forall>c \<in> set output_cols. getitem (columns df) r1 c = getitem (columns df) r2 c))
       \<and> ((\<exists>g \<in> set (groups_of df output_cols). r1 \<in> set (snd g) \<and> r2 \<in> set (snd g))
            \<longleftrightarrow> getitems (columns df) r1 output_cols = getitems (columns df) r2 output_cols)"
proof -
  have len: "length r1 = length r2"
    using assms(3,4,5) by (simp add: rectangular_def list_all_iff)
  have 1: "groupby df output_cols = Inr (groups_of df output_cols)"
    using assms(1,2) by (rule groupby_ok)
  have 2: "(\<exists>g \<in> set (groups_of df output_cols). r1 \<in> set (snd g) \<and> r2 \<in> set (snd g))
            \<longleftrightarrow> getitems (columns df) r1 output_cols = getitems (columns df) r2 output_cols"
    unfolding set_groups_of using assms(4,5) by auto
  show ?thesis using 1 2 getitems_eq_iff[OF len] by simp
qed

theorem same_group_iff_same_outputs_witness:
  "rectangular example_rules
   \<and> (\<exists>g \<in> set (groups_of example_rules [''WY event'', ''WY type'']).
         [''click'', ''NOTa'', ''tap'', ''All''] \<in> set (snd g)
       \<and> [''view'', ''b NOT NOT'', ''tap'', ''All''] \<in> set (snd g))
   \<and> \<not> (\<exists>g \<in> set (groups_of example_rules [''WY event'', ''WY type'']).
         [''view'', ''NOT'', ''open'', ''Z''] \<in> set (snd g)
       \<and> [''()'', ''c'', ''open'', ''''] \<in> set (snd g))"
proof -
  let ?oc = "[''WY event'', ''WY type'']"
  have h1: "?oc \<noteq> ([] :: string list)" by simp
  have h2: "\<forall>c \<in> set ?oc. count_list (columns example_rules) c = 1"
    by (simp add: example_rules_def)
  have h3: "rectangular example_rules" by (simp add: rectangular_def example_rules_def)
  have a: "[''click'', ''NOTa'', ''tap'', ''All''] \<in> set (rows example_rules)"
    by (simp add: example_rules_def)
  have b: "[''view'', ''b NOT NOT'', ''tap'', ''All''] \<in> set (rows example_rules)"
    by (simp add: example_rules_def)
  have c: "[''view'', ''NOT'', ''open'', ''Z''] \<in> set (rows example_rules)"
    by (simp add: example_rules_def)
  have d: "[''()'', ''c'', ''open'', ''''] \<in> set (rows example_rules)"
    by (simp add: example_rules_def)
  have same: "getitems (columns example_rules) [''click'', ''NOTa'', ''tap'', ''All''] ?oc
            = getitems (columns example_rules) [''view'', ''b NOT NOT'', ''tap'', ''All''] ?oc"
    by code_simp
  have differ: "getitems (columns example_rules) [''view'', ''NOT'', ''open'', ''Z''] ?oc
              \<noteq> getitems (columns example_rules) [''()'', ''c'', ''open'', ''''] ?oc"
    by code_simp
  from same_group_iff_same_outputs[OF h1 h2 h3 a b] same_group_iff_same_outputs[OF h1 h2 h3 c d]
    same differ h3
  show ?thesis by blast
qed


section \<open>The order of the groups\<close>

lemma merged_inputs_cong:
  assumes "set g = set g'"
  shows "merged_inputs cols ic g = merged_inputs cols ic g'"
proof -
  have s: "set (concat (map (\<lambda>r. getitem cols r col) g)) = set (concat (map (\<lambda>r. getitem cols r col) g'))" for col
    using assms by simp
  show ?thesis
    unfolding merged_inputs_def Let_def
    using sort_filter_unique_cong[OF s] filter_unique_empty_cong[OF s]
    by (intro arg_cong[where f = concat] map_cong refl) simp
qed

lemma draw_card_cong:
  assumes "set g = set g'"
  shows "draw_card cols ic oc (n, k, g) = draw_card cols ic oc (n, k, g')"
  by (simp add: draw_card_def merged_inputs_cong[OF assms])

lemma groups_of_perm_keys:
  assumes "columns df' = columns df" and "mset (rows df') = mset (rows df)"
  shows "map fst (groups_of df' keys) = map fst (groups_of df keys)"
proof -
  have "set (rows df') = set (rows df)" using assms(2) by (rule mset_eq_setD)
  then show ?thesis
    unfolding groups_of_keys assms(1) by (intro sort_unique_cong) simp
qed

lemma cards_perm:
  assumes "columns df' = columns df" and "mset (rows df') = mset (rows df)"
  shows "map (\<lambda>g. Rule (draw_card cols ic oc g)) (enumerate n (groups_of df' keys))
       = map (\<lambda>g. Rule (draw_card cols ic oc g)) (enumerate n (groups_of df keys))"
proof -
  have s: "set (rows df') = set (rows df)" using assms(2) by (rule mset_eq_setD)
  let ?K = "\<lambda>r. getitems (columns df) r keys"
  have ks: "sort (py_unique (map ?K (rows df'))) = sort (py_unique (map ?K (rows df)))"
    by (intro sort_unique_cong) (simp add: s)
  have "map (\<lambda>g. Rule (draw_card cols ic oc g)) (enumerate n (map (\<lambda>k. (k, filter (\<lambda>r. ?K r = k) (rows df'))) ks))
      = map (\<lambda>g. Rule (draw_card cols ic oc g)) (enumerate n (map (\<lambda>k. (k, filter (\<lambda>r. ?K r = k) (rows df))) ks))" for ks
  proof (induction ks arbitrary: n)
    case Nil
    show ?case by simp
  next
    case (Cons k ks)
    have "draw_card cols ic oc (n, k, filter (\<lambda>r. ?K r = k) (rows df'))
        = draw_card cols ic oc (n, k, filter (\<lambda>r. ?K r = k) (rows df))"
      by (rule draw_card_cong) (simp add: s)
    with Cons show ?case by simp
  qed
  then show ?thesis
    unfolding groups_of_def assms(1) ks .
qed

lemma display_perm:
  assumes "columns df' = columns df" and "mset (rows df') = mset (rows df)"
  shows "display_merged_rules df' ic oc = display_merged_rules df ic oc"
proof -
  have e: "df_empty df' = df_empty df"
    using assms by (auto simp: df_empty_def dest: arg_cong[where f = size])
  have l: "length (groups_of df' oc) = length (groups_of df oc)"
    using groups_of_perm_keys[OF assms, of oc] by (metis length_map)
  have g: "groupby df' oc = Inr (groups_of df' oc) \<and> groupby df oc = Inr (groups_of df oc)
           \<or> (\<exists>e. groupby df' oc = Inl e \<and> groupby df oc = Inl e)"
    by (auto simp: groupby_def assms(1))
  show ?thesis
    using g unfolding display_merged_rules_def e assms(1)
    by (auto simp: l cards_perm[OF assms])
qed

lemma cards_by_position:
  "map (\<lambda>g. Rule (draw_card cols ic oc g)) (enumerate 1 grouped)
   = map (\<lambda>i. Rule \<lparr>rule_counter = Suc i,
                      input_conditions = merged_inputs cols ic (snd (grouped ! i)),
                      common_output = shown_outputs oc (fst (grouped ! i)),
                      displayed_output = (shown_outputs oc (fst (grouped ! i)) \<noteq> [])\<rparr>)
         [0..<length grouped]"
  by (rule nth_equalityI) (simp_all add: nth_enumerate_eq draw_card_def Let_def)

lemma display_page:
  assumes "groupby df oc = Inr grouped" and "\<not> df_empty df"
    and "\<forall>c \<in> set ic. count_list (columns df) c = 1"
  shows "display_merged_rules df ic oc
       = Inr (Subheader (length grouped)
              # map (\<lambda>g. Rule (draw_card (columns df) ic oc g)) (enumerate 1 grouped))"
proof -
  have "\<not> (\<exists>c \<in> set ic. c \<notin> set (columns df))"
    using assms(3) by (auto dest: count_once_mem)
  moreover have "\<not> (\<exists>c \<in> set ic. 1 < count_list (columns df) c)"
    using assms(3) by auto
  ultimately show ?thesis
    using assms(1,2) by (simp add: display_merged_rules_def)
qed

text \<open>
  Claim C6. The merged rules are emitted in ascending order of their output-key tuples, the
  tuples compared lexicographically and their components as strings. \<open>groupby\<close> returns
  the groups with their keys strictly ascending, and the page \<open>display_merged_rules\<close> draws
  is the count of the groups followed by one card per group in that order: the card at
  place \<open>i\<close> (counting from 0) carries the number \<open>i + 1\<close> and shows the outputs and the
  merged inputs of the group with the \<open>i\<close>-th smallest key. The order does not depend on
  the order in which the rows arrive: a frame with the same rows in another order yields
  the same keys in the same order, and \<open>display_merged_rules\<close> draws the same page.
\<close>

theorem groups_sorted_and_order_independent:
  assumes "columns df' = columns df" and "mset (rows df') = mset (rows df)"
    and "groupby df output_cols = Inr grouped"
  shows "sorted_wrt (<) (map fst grouped)
       \<and> (\<exists>grouped'. groupby df' output_cols = Inr grouped' \<and> map fst grouped' = map fst grouped)
       \<and> display_merged_rules df' input_cols output_cols
           = display_merged_rules df input_cols output_cols
       \<and> (\<not> df_empty df \<and> (\<forall>c \<in> set input_cols. count_list (columns df) c = 1) \<longrightarrow>
            display_merged_rules df input_cols output_cols
              = Inr (Subheader (length grouped)
                     # map (\<lambda>i. Rule \<lparr>rule_counter = Suc i,
                              input_conditions =
                                merged_inputs (columns df) input_cols (snd (grouped ! i)),
                              common_output = shown_outputs output_cols (fst (grouped ! i)),
                              displayed_output =
                                (shown_outputs output_cols (fst (grouped ! i)) \<noteq> [])\<rparr>)
                           [0..<length grouped]))
       \<and> (\<forall>i j. i < j \<and> j < length grouped \<longrightarrow> fst (grouped ! i) < fst (grouped ! j))"
proof -
  have g: "grouped = groups_of df output_cols" using assms(3) by (rule groupby_Inr)
  have 1: "sorted_wrt (<) (map fst grouped)"
    unfolding g using sorted_groups_of_keys distinct_groups_of_keys by (simp add: strict_sorted_iff)
  have "groupby df' output_cols = Inr (groups_of df' output_cols)"
    using assms(3) by (auto simp: groupby_def assms(1) split: if_splits)
  then have 2: "\<exists>grouped'. groupby df' output_cols = Inr grouped' \<and> map fst grouped' = map fst grouped"
    unfolding g using groups_of_perm_keys[OF assms(1,2)] by simp
  have 3: "display_merged_rules df' input_cols output_cols
             = display_merged_rules df input_cols output_cols"
    by (rule display_perm[OF assms(1,2)])
  have 4: "\<not> df_empty df \<and> (\<forall>c \<in> set input_cols. count_list (columns df) c = 1) \<longrightarrow>
            display_merged_rules df input_cols output_cols
              = Inr (Subheader (length grouped)
                     # map (\<lambda>i. Rule \<lparr>rule_counter = Suc i,
                              input_conditions =
                                merged_inputs (columns df) input_cols (snd (grouped ! i)),
                              common_output = shown_outputs output_cols (fst (grouped ! i)),
                              displayed_output =
                                (shown_outputs output_cols (fst (grouped ! i)) \<noteq> [])\<rparr>)
                           [0..<length grouped])"
  proof
    assume "\<not> df_empty df \<and> (\<forall>c \<in> set input_cols. count_list (columns df) c = 1)"
    then have "display_merged_rules df input_cols output_cols
             = Inr (Subheader (length grouped)
                    # map (\<lambda>g. Rule (draw_card (columns df) input_cols output_cols g))
                          (enumerate 1 grouped))"
      using display_page[OF assms(3)] by blast
    then show "display_merged_rules df input_cols output_cols
              = Inr (Subheader (length grouped)
                     # map (\<lambda>i. Rule \<lparr>rule_counter = Suc i,
                              input_conditions =
                                merged_inputs (columns df) input_cols (snd (grouped ! i)),
                              common_output = shown_outputs output_cols (fst (grouped ! i)),
                              displayed_output =
                                (shown_outputs output_cols (fst (grouped ! i)) \<noteq> [])\<rparr>)
                           [0..<length grouped])"
      unfolding cards_by_position .
  qed
  have 5: "\<forall>i j. i < j \<and> j < length grouped \<longrightarrow> fst (grouped ! i) < fst (grouped ! j)"
  proof (intro allI impI)
    fix i j assume ij: "i < j \<and> j < length grouped"
    then have "map fst grouped ! i < map fst grouped ! j"
      using 1 by (simp add: sorted_wrt_iff_nth_less)
    with ij show "fst (grouped ! i) < fst (grouped ! j)" by simp
  qed
  from 1 2 3 4 5 show ?thesis by blast
qed

theorem groups_sorted_and_order_independent_witness:
  "map fst (groups_of example_rules [''WY event'', ''WY type''])
     = [[''open'', ''''], [''open'', ''Z''], [''tap'', ''All'']]
   \<and> sorted_wrt (<) [[''open'', ''''], [''open'', ''Z''], [''tap'', ''All'']]
   \<and> display_merged_rules (example_rules\<lparr>rows := rev (rows example_rules)\<rparr>)
         [''SB event'', ''SB type''] [''WY event'', ''WY type'']
       = Inr [Subheader 3,
              Rule \<lparr>rule_counter = 1,
                    input_conditions = [(''SB event'', [''()'']), (''SB type'', [''c''])],
                    common_output = [(''WY event'', ''open'')],
                    displayed_output = True\<rparr>,
              Rule \<lparr>rule_counter = 2,
                    input_conditions = [(''SB event'', [''view''])],
                    common_output = [(''WY event'', ''open''), (''WY type'', ''Z'')],
                    displayed_output = True\<rparr>,
              Rule \<lparr>rule_counter = 3,
                    input_conditions = [(''SB event'', [''click'', ''view'']),
                                        (''SB type'', [''NOTa'', ''b NOT NOT''])],
                    common_output = [(''WY event'', ''tap''), (''WY type'', ''All'')],
                    displayed_output = True\<rparr>]"
proof -
  let ?oc = "[''WY event'', ''WY type'']"
  let ?ic = "[''SB event'', ''SB type'']"
  let ?G = "groups_of example_rules ?oc"
  have h1: "columns (example_rules\<lparr>rows := rev (rows example_rules)\<rparr>) = columns example_rules"
    by simp
  have h2: "mset (rows (example_rules\<lparr>rows := rev (rows example_rules)\<rparr>)) = mset (rows example_rules)"
    by simp
  have h3: "groupby example_rules ?oc = Inr ?G"
    by (simp add: groupby_def example_rules_def)
  have h4: "\<not> df_empty example_rules" by (simp add: df_empty_def example_rules_def)
  have h5: "\<forall>c \<in> set ?ic. count_list (columns example_rules) c = 1"
    by (simp add: example_rules_def)
  have k: "map fst ?G = [[''open'', ''''], [''open'', ''Z''], [''tap'', ''All'']]"
    by code_simp
  have page: "Inr (Subheader (length ?G)
                   # map (\<lambda>i. Rule \<lparr>rule_counter = Suc i,
                            input_conditions = merged_inputs (columns example_rules) ?ic (snd (?G ! i)),
                            common_output = shown_outputs ?oc (fst (?G ! i)),
                            displayed_output = (shown_outputs ?oc (fst (?G ! i)) \<noteq> [])\<rparr>)
                         [0..<length ?G])
            = (Inr [Subheader 3,
              Rule \<lparr>rule_counter = 1,
                    input_conditions = [(''SB event'', [''()'']), (''SB type'', [''c''])],
                    common_output = [(''WY event'', ''open'')],
                    displayed_output = True\<rparr>,
              Rule \<lparr>rule_counter = 2,
                    input_conditions = [(''SB event'', [''view''])],
                    common_output = [(''WY event'', ''open''), (''WY type'', ''Z'')],
                    displayed_output = True\<rparr>,
              Rule \<lparr>rule_counter = 3,
                    input_conditions = [(''SB event'', [''click'', ''view'']),
                                        (''SB type'', [''NOTa'', ''b NOT NOT''])],
                    common_output = [(''WY event'', ''tap''), (''WY type'', ''All'')],
                    displayed_output = True\<rparr>] :: py_error + ui list)"
    by code_simp
  from groups_sorted_and_order_independent[OF h1 h2 h3, of ?ic] h4 h5 k page
  show ?thesis by simp
qed

section \<open>What \<open>main\<close> shows\<close>

lemma load_data_shown:
  assumes "load_data py_str f = (shown, df, ic, oc)"
  shows "shown = [] \<or> ((shown = [St_error Pivot_missing] \<or> shown = [St_error Loading_failed]) \<and> df = empty_frame)"
  using assms
  by (auto simp: load_data_def Let_def split: csv_file.splits option.splits loc.splits)

lemma load_data_zero_rows:
  assumes "rows raw = []" and "load_data py_str (Parsed raw) = (shown, df, ic, oc)"
  shows "rows df = []"
  using assms
  by (auto simp: load_data_def Let_def normalize_cells_eq as_strings_def empty_frame_def drop_columns_def
           split: option.splits loc.splits if_splits)

lemma main_zero_rows:
  assumes "rows raw = []"
  shows "main py_str (Parsed raw) ev attrs
       = Inr (fst (load_data py_str (Parsed raw)) @ [St_warning Cannot_proceed, St_stop])"
proof -
  obtain shown df ic oc where l: "load_data py_str (Parsed raw) = (shown, df, ic, oc)"
    by (metis prod_cases4)
  have "df_empty df" using load_data_zero_rows[OF assms l] by (simp add: df_empty_def)
  with l show ?thesis by (simp add: main_def)
qed

lemma display_no_rows:
  "rows df = [] \<Longrightarrow> display_merged_rules df ic oc = Inr [St_warning No_rules_found]"
  by (simp add: display_merged_rules_def df_empty_def)

lemma main_loaded:
  assumes l: "load_data py_str f = (shown, df, ic, oc)" and ne: "\<not> df_empty df"
    and once: "count_list (columns df) ''WY event'' = 1"
  shows "main py_str f ev attrs =
     (case display_merged_rules (secondary_filter (primary_filter df ev) oc attrs) ic oc of
        Inl e \<Rightarrow> Inl e
      | Inr cards \<Rightarrow> Inr ([Selectbox (''All'' # sort (py_unique (column df ''WY event''))),
                          Multiselect (sort (cleaned_attributes (primary_filter df ev) oc ev)),
                          Header ev] @ cards))"
proof -
  have sh: "shown = []" using load_data_shown[OF l] ne by (auto simp: empty_frame_def df_empty_def)
  have nm: "f \<noteq> Missing" using l ne by (auto simp: load_data_def empty_frame_def df_empty_def)
  have mem: "''WY event'' \<in> set (columns df)" using once by (simp add: count_once_mem)
  show ?thesis
    using nm l ne once mem sh by (cases f) (simp_all add: main_def Let_def split: sum.splits)
qed

lemma display_no_multiselect:
  "display_merged_rules df ic oc = Inr cards \<Longrightarrow> Multiselect opts \<notin> set cards"
  by (auto simp: display_merged_rules_def split: if_splits sum.splits)

lemma main_multiselect:
  assumes "main py_str f ev attrs = Inr shown" and "Multiselect opts \<in> set shown"
  shows "\<exists>df ic oc. load_data py_str f = ([], df, ic, oc) \<and> \<not> df_empty df
                    \<and> opts = sort (cleaned_attributes (primary_filter df ev) oc ev)"
proof -
  obtain sh df ic oc where l: "load_data py_str f = (sh, df, ic, oc)"
    by (metis prod_cases4)
  have sh_cases: "sh = [] \<or> sh = [St_error Pivot_missing] \<or> sh = [St_error Loading_failed]"
    using load_data_shown[OF l] by blast
  have nm: "f \<noteq> Missing" using assms by (auto simp: main_def)
  have ne: "\<not> df_empty df"
    using assms l nm sh_cases by (cases f) (auto simp: main_def)
  have sh: "sh = []" using load_data_shown[OF l] ne by (auto simp: empty_frame_def df_empty_def)
  have "opts = sort (cleaned_attributes (primary_filter df ev) oc ev)"
    using assms l nm ne sh
    by (cases f) (auto simp: main_def Let_def split: if_splits sum.splits dest: display_no_multiselect)
  with l sh ne show ?thesis by blast
qed

text \<open>
  Claim C5, as the code has it. A combination of filters that matches no row is not an
  error: \<open>main\<close> draws both selectors and then the warning "No rules found for the selected
  criteria.", with no error message and no stop, and puts no other table in place of the
  empty one. A parsed file with no rows is not shown that way: whatever its header, \<open>main\<close>
  shows what \<open>load_data\<close> reported, then the warning "Data could not be loaded or the file is
  empty. The application cannot proceed.", and stops, as it does after a failed load.
\<close>

theorem no_matches_is_not_a_failure:
  assumes "load_data py_str f = (shown, df, input_cols, output_cols)" and "\<not> df_empty df"
    and "count_list (columns df) ''WY event'' = 1"
    and "rows (secondary_filter (primary_filter df selected_event) output_cols selected_attributes) = []"
  shows "main py_str f selected_event selected_attributes
           = Inr [Selectbox (''All'' # sort (py_unique (column df ''WY event''))),
                  Multiselect (sort (cleaned_attributes (primary_filter df selected_event)
                                       output_cols selected_event)),
                  Header selected_event, St_warning No_rules_found]
       \<and> (rows raw = [] \<longrightarrow>
            main py_str' (Parsed raw) selected_event selected_attributes
              = Inr (fst (load_data py_str' (Parsed raw)) @ [St_warning Cannot_proceed, St_stop]))"
  using main_loaded[OF assms(1,2,3)] display_no_rows[OF assms(4)] main_zero_rows[of raw]
  by simp

theorem no_matches_is_not_a_failure_witness:
  "main unit_str (Parsed example_raw) ''All'' [''Z'', ''tap'']
     = Inr [Selectbox [''All'', ''open'', ''tap''], Multiselect [''Z'', ''open'', ''tap''],
            Header ''All'', St_warning No_rules_found]
   \<and> main unit_str (Parsed \<lparr>columns = [''SB event'', ''WY event''], rows = []\<rparr>) ''All'' [''Z'', ''tap'']
     = Inr [St_warning Cannot_proceed, St_stop]"
proof -
  let ?oc = "[''WY event'', ''WY type'']"
  let ?none = "\<lparr>columns = [''SB event'', ''WY event''], rows = []\<rparr> :: unit cell frame"
  have h1: "load_data unit_str (Parsed example_raw)
              = ([], example_rules, [''SB event'', ''SB type''], ?oc)"
    by code_simp
  have h2: "\<not> df_empty example_rules" by (simp add: df_empty_def example_rules_def)
  have h3: "count_list (columns example_rules) ''WY event'' = 1" by (simp add: example_rules_def)
  have h4: "rows (secondary_filter (primary_filter example_rules ''All'') ?oc [''Z'', ''tap'']) = []"
    by code_simp
  have e1: "''All'' # sort (py_unique (column example_rules ''WY event'')) = [''All'', ''open'', ''tap'']"
    by code_simp
  have e2: "sort (cleaned_attributes (primary_filter example_rules ''All'') ?oc ''All'')
              = [''Z'', ''open'', ''tap'']"
    by code_simp
  have e3: "rows ?none = []" by simp
  have e4: "fst (load_data unit_str (Parsed ?none)) = []" by code_simp
  from no_matches_is_not_a_failure[OF h1 h2 h3 h4, of ?none unit_str] e1 e2 e3 e4
  show ?thesis by simp
qed

theorem zero_row_table_counterexample:
  "main unit_str (Parsed \<lparr>columns = [''SB event'', ''WY event''], rows = []\<rparr>) ''All'' []
     = Inr [St_warning Cannot_proceed, St_stop]
   \<and> main unit_str (Parsed \<lparr>columns = [''SB event'', ''Out1''], rows = []\<rparr>) ''All'' []
     = Inr [St_error Pivot_missing, St_warning Cannot_proceed, St_stop]
   \<and> main unit_str (Parsed example_raw) ''All'' [''Z'', ''tap'']
     = Inr [Selectbox [''All'', ''open'', ''tap''], Multiselect [''Z'', ''open'', ''tap''],
            Header ''All'', St_warning No_rules_found]"
  by code_simp

text \<open>
  Claim C3, as the code has it. \<open>load_data\<close> knows one pivot, the column labelled
  \<open>WY event\<close>. For the table with the columns \<open>Event\<close>, \<open>A\<close>, \<open>B\<close>, \<open>WY event\<close> and the rows
  \<open>X\<close>, \<open>~p\<close>, empty, \<open>Y\<close> and \<open>X\<close>, \<open>q\<close>, empty, \<open>Y\<close>, the pipeline draws exactly one merged
  rule. Its output side is \<open>WY event\<close>: \<open>Y\<close>. Its input side is \<open>Event\<close>: \<open>X\<close> and \<open>A\<close>: \<open>NOTp\<close>,
  \<open>q\<close>, sorted; the replacement puts no blank after \<open>NOT\<close>, and \<open>Event\<close>, standing before
  the pivot, is an input column. \<open>B\<close> draws no line.
\<close>

theorem spec_example_with_wy_event:
  "main unit_str (Parsed spec_example_wy) ''All'' []
     = Inr [Selectbox [''All'', ''Y''], Multiselect [''Y''], Header ''All'', Subheader 1,
            Rule \<lparr>rule_counter = 1,
                  input_conditions = [(''Event'', [''X'']), (''A'', [''NOTp'', ''q''])],
                  common_output = [(''WY event'', ''Y'')],
                  displayed_output = True\<rparr>]"
  by code_simp

text \<open>The table as the specification writes it, with the pivot labelled \<open>Out1\<close>, does not
  load. Run past \<open>load_data\<close> with the columns split at \<open>Out1\<close>, the two loops and
  \<open>display_merged_rules\<close> still draw \<open>Event\<close> and \<open>NOTp\<close>.\<close>

theorem spec_example_counterexample:
  "main unit_str (Parsed spec_example) ''All'' []
     = Inr [St_error Pivot_missing, St_warning Cannot_proceed, St_stop]
   \<and> normalize_cells unit_str [''Event'', ''A'', ''B''] [''Out1''] spec_example
     = Some \<lparr>columns = [''Event'', ''A'', ''B'', ''Out1''],
             rows = [[Str ''X'', Str ''NOTp'', Str '''', Str ''Y''],
                     [Str ''X'', Str ''q'', Str '''', Str ''Y'']]\<rparr>
   \<and> display_merged_rules
        \<lparr>columns = [''Event'', ''A'', ''B'', ''Out1''],
          rows = [[''X'', ''NOTp'', '''', ''Y''], [''X'', ''q'', '''', ''Y'']]\<rparr>
        [''Event'', ''A'', ''B''] [''Out1'']
     = Inr [Subheader 1,
            Rule \<lparr>rule_counter = 1,
                  input_conditions = [(''Event'', [''X'']), (''A'', [''NOTp'', ''q''])],
                  common_output = [(''Out1'', ''Y'')],
                  displayed_output = True\<rparr>]"
  by code_simp

text \<open>
  Claim C9. Under the primary selection \<open>All\<close> no row is filtered out, and still the
  candidate list of the secondary filter leaves out the value \<open>All\<close>: whenever \<open>main\<close>, run
  with \<open>All\<close> selected, draws the multiselect, its options are the non-blank output values
  of the whole loaded table other than \<open>All\<close>, so an output value \<open>All\<close> of some row is
  never among them.
\<close>

theorem all_value_never_offered:
  assumes "main py_str f ''All'' selected_attributes = Inr shown"
    and "Multiselect options \<in> set shown"
  shows "''All'' \<notin> set options
       \<and> (\<exists>df input_cols output_cols.
             load_data py_str f = ([], df, input_cols, output_cols)
           \<and> primary_filter df ''All'' = df
           \<and> options = sort (filter (\<lambda>attr. strip attr \<noteq> '''' \<and> attr \<noteq> ''All'')
                 (py_unique (concat (map (\<lambda>r. getitems (columns df) r output_cols) (rows df))))))"
proof -
  from main_multiselect[OF assms] obtain df ic oc where
    l: "load_data py_str f = ([], df, ic, oc)"
    and o: "options = sort (cleaned_attributes (primary_filter df ''All'') oc ''All'')"
    by blast
  have p: "primary_filter df ''All'' = df" by (simp add: primary_filter_def)
  have "''All'' \<notin> set options" by (simp add: o cleaned_attributes_def)
  moreover have "options = sort (filter (\<lambda>attr. strip attr \<noteq> '''' \<and> attr \<noteq> ''All'')
                 (py_unique (concat (map (\<lambda>r. getitems (columns df) r oc) (rows df)))))"
    by (simp add: o p cleaned_attributes_def)
  ultimately show ?thesis using l p by blast
qed

theorem all_value_never_offered_witness:
  "''All'' \<in> set (column example_rules ''WY type'')
   \<and> Multiselect [''Z'', ''open'', ''tap'']
       \<in> set [Selectbox [''All'', ''open'', ''tap''], Multiselect [''Z'', ''open'', ''tap''],
              Header ''All'', St_warning No_rules_found]
   \<and> ''All'' \<notin> set [''Z'', ''open'', ''tap'']"
proof -
  have h1: "main unit_str (Parsed example_raw) ''All'' [''Z'', ''tap'']
     = Inr [Selectbox [''All'', ''open'', ''tap''], Multiselect [''Z'', ''open'', ''tap''],
            Header ''All'', St_warning No_rules_found]"
    by code_simp
  have h2: "Multiselect [''Z'', ''open'', ''tap'']
       \<in> set [Selectbox [''All'', ''open'', ''tap''], Multiselect [''Z'', ''open'', ''tap''],
              Header ''All'', St_warning No_rules_found]"
    by simp
  have v: "''All'' \<in> set (column example_rules ''WY type'')" by code_simp
  from all_value_never_offered[OF h1 h2] h2 v show ?thesis by blast
qed


section \<open>From \<open>load_data\<close> to the grouping\<close>

lemma first_index_less: "c \<in> set xs \<Longrightarrow> first_index xs c < length xs"
  by (induction xs) auto

lemma first_index_nth: "c \<in> set xs \<Longrightarrow> xs ! first_index xs c = c"
  by (induction xs) auto

lemma get_loc_Position:
  assumes "get_loc cols c = Some (Position i)"
  shows "i < length cols \<and> cols ! i = c"
  using assms by (auto simp: get_loc_def first_index_less first_index_nth split: if_splits)

lemma normalize_cells_columns:
  "normalize_cells py_str ic oc d = Some d' \<Longrightarrow> columns d' = columns d"
  by (auto simp: normalize_cells_eq split: if_splits)

lemma load_data_schema:
  assumes "load_data py_str f = (shown, df, ic, oc)" and "\<not> df_empty df"
  shows "columns df = ic @ oc \<and> oc \<noteq> [] \<and> hd oc = ''WY event''"
proof -
  from assms obtain raw where f: "f = Parsed raw"
    by (cases f) (auto simp: load_data_def empty_frame_def df_empty_def)
  let ?d = "drop_columns cols_to_drop raw"
  from assms f obtain i d' where
    loc: "get_loc (columns ?d) ''WY event'' = Some (Position i)"
    and n: "normalize_cells py_str (map strip (take i (columns ?d))) (map strip (drop i (columns ?d)))
              (?d\<lparr>columns := map strip (columns ?d)\<rparr>) = Some d'"
    and r: "df = as_strings py_str d'" "ic = map strip (take i (columns ?d))"
           "oc = map strip (drop i (columns ?d))"
    by (auto simp: load_data_def Let_def empty_frame_def df_empty_def
             split: option.splits loc.splits)
  have i: "i < length (columns ?d)" "columns ?d ! i = ''WY event''"
    using get_loc_Position[OF loc] by simp_all
  have c: "columns df = map strip (columns ?d)"
    using normalize_cells_columns[OF n] by (simp add: r(1) as_strings_def)
  have "ic @ oc = map strip (columns ?d)"
    unfolding r(2,3) by (simp flip: map_append)
  moreover have "oc \<noteq> []" using i(1) by (simp add: r(3))
  moreover have "hd oc = ''WY event''"
    using i by (simp add: r(3) hd_map hd_drop_conv_nth strip_wy_event)
  ultimately show ?thesis using c by simp
qed

lemma count_list_distinct: "distinct xs \<Longrightarrow> c \<in> set xs \<Longrightarrow> count_list xs c = 1"
  by (induction xs) auto

text \<open>A loaded table whose trimmed labels are distinct meets the hypotheses of the
  grouping theorems, and filtering keeps it so.\<close>

lemma loaded_frame_groupable:
  assumes "load_data py_str f = (shown, df, ic, oc)" and "\<not> df_empty df"
    and "distinct (columns df)"
  shows "oc \<noteq> [] \<and> (\<forall>c \<in> set oc. count_list (columns df) c = 1)
       \<and> count_list (columns df) ''WY event'' = 1
       \<and> columns (secondary_filter (primary_filter df ev) oc attrs) = columns df"
proof -
  have s: "columns df = ic @ oc" "oc \<noteq> []" "hd oc = ''WY event''"
    using load_data_schema[OF assms(1,2)] by simp_all
  have m: "\<forall>c \<in> set oc. c \<in> set (columns df)" by (simp add: s(1))
  have w: "''WY event'' \<in> set oc" using s(2,3) by (metis hd_in_set)
  show ?thesis
    using s(2) m w assms(3)
    by (auto simp: count_list_distinct secondary_filter_def primary_filter_def)
qed

lemma length_filter_zip_fst:
  "length r = length cols \<Longrightarrow> length (filter (\<lambda>p. P (fst p)) (zip cols r)) = length (filter P cols)"
proof -
  assume "length r = length cols"
  then have "map fst (zip cols r) = cols" by simp
  then have "length (filter P (map fst (zip cols r))) = length (filter P cols)" by simp
  then show ?thesis by (simp add: filter_map comp_def)
qed

lemma length_map_labelled: "length (map_labelled f ls vs) = length vs"
  by (induction f ls vs rule: map_labelled.induct) auto

lemma load_data_rectangular:
  assumes "rectangular raw" and "load_data py_str (Parsed raw) = (shown, df, ic, oc)"
  shows "rectangular df"
proof (cases "df = empty_frame")
  case True
  then show ?thesis by (simp add: rectangular_def empty_frame_def)
next
  case False
  let ?d = "drop_columns cols_to_drop raw"
  from assms(2) False obtain i where
    df: "df = as_strings py_str
           ((?d\<lparr>columns := map strip (columns ?d)\<rparr>)
              \<lparr>rows := map (map_labelled (norm_cell py_str (map strip (take i (columns ?d)))
                                            (map strip (drop i (columns ?d))))
                                          (map strip (columns ?d))) (rows ?d)\<rparr>)"
    by (auto simp: load_data_def Let_def normalize_cells_eq split: option.splits loc.splits if_splits)
  have "\<forall>r \<in> set (rows ?d). length r = length (columns ?d)"
    using assms(1) length_filter_zip_fst[where P = "\<lambda>l. l \<notin> set cols_to_drop" and cols = "columns raw"]
    by (auto simp: rectangular_def list_all_iff drop_columns_def)
  then show ?thesis
    by (simp add: df rectangular_def list_all_iff as_strings_def length_map_labelled)
qed

lemma filters_rectangular:
  "rectangular df \<Longrightarrow> rectangular (secondary_filter (primary_filter df ev) oc attrs)"
  by (auto simp: rectangular_def list_all_iff secondary_filter_def primary_filter_def)

end
